theory Spec2Isabelle
  imports Main "HOL-Library.Word"
begin

unbundle bit_operations_syntax

section \<open>The URL shortener's storage layer (DatabaseStorage)\<close>

text \<open>
  The development embeds the URL methods of class \<open>DatabaseStorage\<close>: \<open>createShortUrl\<close>,
  \<open>getUrlByShortCode\<close>, \<open>incrementUrlClicks\<close>, \<open>getRecentUrls\<close>, \<open>isShortCodeAvailable\<close> and
  \<open>generateShortCode\<close>. Every method is asynchronous and talks to one collection of a
  document store through the Mongoose model \<open>UrlModel\<close>; here a method is a function that
  takes the store and returns its result together with the store it leaves behind, and a
  rejected promise is the left summand of the result.

  Calls are sequential: one method runs to its end before the next starts.
  \<open>connectToDatabase\<close> is taken to have succeeded and the store to answer every query, so
  the only failures are the ones the methods raise themselves and the store's rejection of
  a duplicate key. The schema of \<open>UrlModel\<close> is not among the sources, and validation of a
  document against it is not modelled; the specification takes \<open>longUrl\<close> to be a non-empty
  string. The users collection is a different collection that no URL method touches and
  is left out.
\<close>

subsection \<open>Values\<close>

text \<open>
  A JavaScript number that holds the result of \<open>parseInt\<close>: \<open>NaN\<close>, or the integer that the
  resulting double stands for.
\<close>

datatype number = NaN | Number int

text \<open>
  The store's native identifier \<open>_id\<close>, as the 24 hexadecimal characters that
  \<open>toString()\<close> gives.
\<close>

type_synonym objectId = string

definition isDigit :: "char \<Rightarrow> bool" where
  "isDigit c \<longleftrightarrow> 48 \<le> (of_char c :: nat) \<and> (of_char c :: nat) \<le> 57"

definition digitVal :: "char \<Rightarrow> int" where
  "digitVal c = int (of_char c) - 48"

text \<open>
  The double nearest to a non-negative integer, ties going to the even significand: an
  integer of at most 53 binary digits is a double itself, a longer one keeps its leading
  53 binary digits, rounded. (At most 24 decimal digits are read below, far from the
  largest double.)
\<close>

function bitLength :: "int \<Rightarrow> nat" where
  "bitLength n = (if n \<le> 0 then 0 else Suc (bitLength (n div 2)))"
  by pat_completeness auto
termination
  by (relation "measure nat") auto

definition toDouble :: "int \<Rightarrow> int" where
  "toDouble n =
     (let k = bitLength n in
      if k \<le> 53 then n
      else
        (let sh = k - 53;
             q = n div 2 ^ sh;
             r = n mod 2 ^ sh;
             half = 2 ^ (sh - 1);
             q' = (if half < r \<or> (r = half \<and> odd q) then q + 1 else q)
         in q' * 2 ^ sh))"

text \<open>
  \<open>parseInt(s)\<close> on an identifier's hexadecimal rendering: such a string has no leading
  white space, no sign and no \<open>0x\<close> prefix, so \<open>parseInt\<close> reads the longest prefix of
  decimal digits in base ten, as a double, and gives \<open>NaN\<close> when the first character is a
  letter.
\<close>

definition parseInt :: "string \<Rightarrow> number" where
  "parseInt s =
     (case takeWhile isDigit s of
        [] \<Rightarrow> NaN
      | ds \<Rightarrow> Number (toDouble (foldl (\<lambda>acc c. 10 * acc + digitVal c) 0 ds)))"

text \<open>
  The fields a stored document (\<open>IUrl\<close>) and a returned record (\<open>Url\<close>) share, the document
  with its \<open>_id\<close> (field \<open>oid\<close>) and the record with its numeric \<open>id\<close> (field \<open>url_id\<close>).
  \<open>customAlias\<close> is a string or \<open>null\<close>; \<open>createdAt\<close> is a \<open>Date\<close>, in milliseconds since the
  epoch; \<open>clicks\<close> is the counter.
\<close>

record url_fields =
  shortCode :: string
  longUrl :: string
  customAlias :: "string option"
  createdAt :: int
  clicks :: nat

record IUrl = url_fields +
  oid :: objectId

record Url = url_fields +
  url_id :: number

text \<open>
  The object literal that \<open>createShortUrl\<close>, \<open>getUrlByShortCode\<close> and \<open>getRecentUrls\<close> build
  from a document.
\<close>

definition toUrl :: "IUrl \<Rightarrow> Url" where
  "toUrl url =
     \<lparr> shortCode = shortCode url,
       longUrl = longUrl url,
       customAlias = customAlias url,
       createdAt = createdAt url,
       clicks = clicks url,
       url_id = parseInt (oid url) \<rparr>"

text \<open>
  What a rejected promise carries: the \<open>Error\<close> that \<open>createShortUrl\<close> throws, with its
  message, or the store's duplicate-key error (E11000) out of \<open>save\<close>.
\<close>

datatype error = Error string | DuplicateKey

subsection \<open>The store\<close>

text \<open>
  The urls collection: its documents in natural (insertion) order, and whether the
  collection has a unique index on \<open>shortCode\<close>. The schema that declares the index
  (\<open>./models\<close>) is not among the sources, so the index is a parameter of the store: the
  specification's persisted layout lists \<open>shortCode\<close> as unique, and its account of
  \<open>createShortUrl\<close> speaks of store-level uniqueness "if any".
\<close>

record store =
  urls :: "IUrl list"
  shortCodeUnique :: bool

definition shortCodes :: "store \<Rightarrow> string set" where
  "shortCodes st = shortCode ` set (urls st)"

text \<open>\<open>UrlModel.findOne({ shortCode }).lean()\<close>: the first document whose \<open>shortCode\<close> is
  exactly the given string, or \<open>null\<close>.\<close>

definition findOne :: "store \<Rightarrow> string \<Rightarrow> IUrl option" where
  "findOne st code = find (\<lambda>d. shortCode d = code) (urls st)"

text \<open>\<open>newUrl.save()\<close>: the document is appended, unless the unique index rejects its
  \<open>shortCode\<close>.\<close>

definition save :: "store \<Rightarrow> IUrl \<Rightarrow> (error + IUrl) \<times> store" where
  "save st d =
     (if shortCodeUnique st \<and> shortCode d \<in> shortCodes st then (Inl DuplicateKey, st)
      else (Inr d, st\<lparr>urls := urls st @ [d]\<rparr>))"

text \<open>\<open>UrlModel.findOneAndUpdate({ shortCode }, { $inc: { clicks: 1 } })\<close>: the first
  matching document has its counter raised by one; with no match nothing is written.\<close>

fun incFirst :: "string \<Rightarrow> IUrl list \<Rightarrow> IUrl list" where
  "incFirst code [] = []"
| "incFirst code (d # ds) =
     (if shortCode d = code then d\<lparr>clicks := clicks d + 1\<rparr> # ds else d # incFirst code ds)"

definition findOneAndUpdate_inc :: "store \<Rightarrow> string \<Rightarrow> store" where
  "findOneAndUpdate_inc st code = st\<lparr>urls := incFirst code (urls st)\<rparr>"

text \<open>
  \<open>UrlModel.find({}).sort({ createdAt: -1 }).limit(n).lean()\<close>. The store leaves the order
  of documents with equal \<open>createdAt\<close> open; the model keeps them in insertion order. A
  limit of \<open>0\<close> is the store's way of saying "no limit": the cursor then returns every
  document. The limit is a natural number here (negative and fractional limits are not
  modelled).
\<close>

definition limit_docs :: "nat \<Rightarrow> 'a list \<Rightarrow> 'a list" where
  "limit_docs n ds = (if n = 0 then ds else take n ds)"

definition find_sort_limit :: "store \<Rightarrow> nat \<Rightarrow> IUrl list" where
  "find_sort_limit st n = limit_docs n (sort_key (\<lambda>d. - createdAt d) (urls st))"

subsection \<open>What a call takes from outside\<close>

text \<open>
  The clock read by \<open>new Date()\<close>, the random bytes the code generator draws, and the
  \<open>_id\<close> that a new document is given.
\<close>

record env =
  now :: int
  randomBytes :: "nat \<Rightarrow> 8 word"
  newObjectId :: objectId

subsection \<open>Short-code generation\<close>

text \<open>
  Modelled from the spec: \<open>nanoid\<close> is the generator package imported on line 2 and is not
  among the sources. The specification gives its result as a random short code of fixed
  length drawn from a URL-safe alphabet, using a cryptographically strong random
  generator. The model draws as many characters as asked for, each the letter that the
  low six bits of one random byte select from an alphabet of 64 characters: the letters,
  the digits, the hyphen and the underscore, in the order in which the package lists them.
\<close>

definition urlAlphabet :: string where
  "urlAlphabet = ''useandom-26T198340PX75pxJACKVERYMINDBUSHWOLF_GQZbfghjklqvwyzrict''"

definition nanoid :: "env \<Rightarrow> nat \<Rightarrow> string" where
  "nanoid e sz = map (\<lambda>i. urlAlphabet ! unat (randomBytes e i AND 63)) [0..<sz]"

text \<open>\<open>generateShortCode(length = 6)\<close>.\<close>

definition generateShortCode :: "env \<Rightarrow> nat option \<Rightarrow> string" where
  "generateShortCode e len = nanoid e (case len of None \<Rightarrow> 6 | Some n \<Rightarrow> n)"

subsection \<open>The URL methods\<close>

text \<open>\<open>a || b\<close> and \<open>a || null\<close> for an optional string \<open>a\<close>: \<open>undefined\<close> and the empty
  string are falsy.\<close>

definition orElse :: "string option \<Rightarrow> string \<Rightarrow> string" where
  "orElse a b = (case a of None \<Rightarrow> b | Some s \<Rightarrow> if s = [] then b else s)"

definition orNull :: "string option \<Rightarrow> string option" where
  "orNull a = (case a of None \<Rightarrow> None | Some s \<Rightarrow> if s = [] then None else Some s)"

definition isShortCodeAvailable :: "store \<Rightarrow> string \<Rightarrow> bool \<times> store" where
  "isShortCodeAvailable st code = (findOne st code = None, st)"

definition aliasInUse :: string where
  "aliasInUse = ''Custom alias is already in use. Please choose a different one.''"

definition createShortUrl ::
    "env \<Rightarrow> store \<Rightarrow> string \<Rightarrow> string option \<Rightarrow> (error + Url) \<times> store" where
  "createShortUrl e st lUrl cAlias =
     (let code = orElse cAlias (generateShortCode e None);
          (taken, st1) =
            (case cAlias of
               None \<Rightarrow> (False, st)
             | Some a \<Rightarrow>
                 if a = [] then (False, st)
                 else (let (isAvailable, s) = isShortCodeAvailable st a
                       in (\<not> isAvailable, s)))
      in if taken then (Inl (Error aliasInUse), st1)
         else
           (let newUrl =
                  \<lparr> shortCode = code,
                    longUrl = lUrl,
                    customAlias = orNull cAlias,
                    createdAt = now e,
                    clicks = 0,
                    oid = newObjectId e \<rparr>
            in case save st1 newUrl of
                 (Inl err, st2) \<Rightarrow> (Inl err, st2)
               | (Inr savedUrl, st2) \<Rightarrow> (Inr (toUrl savedUrl), st2)))"

definition getUrlByShortCode :: "store \<Rightarrow> string \<Rightarrow> Url option \<times> store" where
  "getUrlByShortCode st code =
     (case findOne st code of
        None \<Rightarrow> (None, st)
      | Some url \<Rightarrow> (Some (toUrl url), st))"

definition incrementUrlClicks :: "store \<Rightarrow> string \<Rightarrow> unit \<times> store" where
  "incrementUrlClicks st code = ((), findOneAndUpdate_inc st code)"

text \<open>\<open>getRecentUrls(limit = 10)\<close>: \<open>None\<close> is the call without an argument.\<close>

definition getRecentUrls :: "store \<Rightarrow> nat option \<Rightarrow> Url list \<times> store" where
  "getRecentUrls st lim =
     (let n = (case lim of None \<Rightarrow> 10 | Some k \<Rightarrow> k);
          found = find_sort_limit st n
      in (map toUrl found, st))"

subsection \<open>Notions used in the statements\<close>

text \<open>The document that lines 80 to 86 build, given the short code and the stored alias.\<close>

definition newDoc :: "env \<Rightarrow> string \<Rightarrow> string \<Rightarrow> string option \<Rightarrow> IUrl" where
  "newDoc e code lUrl a =
     \<lparr> shortCode = code,
       longUrl = lUrl,
       customAlias = a,
       createdAt = now e,
       clicks = 0,
       oid = newObjectId e \<rparr>"

text \<open>No two documents of the collection have the same \<open>shortCode\<close>.\<close>

definition uniqueShortCodes :: "store \<Rightarrow> bool" where
  "uniqueShortCodes st \<longleftrightarrow> distinct (map shortCode (urls st))"

text \<open>\<open>incrementUrlClicks(code)\<close> called \<open>n\<close> times, one call after the other.\<close>

fun incrementTimes :: "nat \<Rightarrow> store \<Rightarrow> string \<Rightarrow> store" where
  "incrementTimes 0 st code = st"
| "incrementTimes (Suc n) st code = incrementTimes n (snd (incrementUrlClicks st code)) code"

text \<open>
  The stores the URL methods can produce: the empty collection, with or without the
  index, and what a writing method leaves when called on such a store with any arguments,
  clock, random bytes and identifier. (The reading methods return the store unchanged.)
\<close>

inductive reachable :: "store \<Rightarrow> bool" where
  empty: "reachable \<lparr> urls = [], shortCodeUnique = b \<rparr>"
| create: "reachable st \<Longrightarrow> reachable (snd (createShortUrl e st lUrl cAlias))"
| increment: "reachable st \<Longrightarrow> reachable (snd (incrementUrlClicks st code))"


subsection \<open>Example values\<close>

text \<open>
  A clock reading, a random source whose \<open>i\<close>-th byte is \<open>i\<close> (so that six characters
  come out as \<open>useand\<close>) and an identifier; a second clock reading and identifier, under
  which the record with the alias \<open>promo\<close> was created; a store with the unique index that
  holds that record; a third clock reading and identifier with the random source of the
  first, the record they give in a call without alias, and the store without the index
  that holds that record; and a store with a document whose short code is the empty
  string.
\<close>

definition env0 :: env where
  "env0 =
     \<lparr> now = 1700000000000,
       randomBytes = (\<lambda>i. of_nat i),
       newObjectId = ''507f1f77bcf86cd799439011'' \<rparr>"

definition env1 :: env where
  "env1 =
     \<lparr> now = 1000,
       randomBytes = (\<lambda>i. 0),
       newObjectId = ''65a1f00000000000000000a1'' \<rparr>"

definition promoDoc :: IUrl where
  "promoDoc =
     \<lparr> shortCode = ''promo'',
       longUrl = ''https://example.com'',
       customAlias = Some ''promo'',
       createdAt = 1000,
       clicks = 0,
       oid = ''65a1f00000000000000000a1'' \<rparr>"

definition store1 :: store where
  "store1 = \<lparr> urls = [promoDoc], shortCodeUnique = True \<rparr>"

definition env2 :: env where
  "env2 =
     \<lparr> now = 2000,
       randomBytes = (\<lambda>i. of_nat i),
       newObjectId = ''a5a1f00000000000000000b2'' \<rparr>"

definition useandDoc :: IUrl where
  "useandDoc =
     \<lparr> shortCode = ''useand'',
       longUrl = ''https://example.net'',
       customAlias = None,
       createdAt = 2000,
       clicks = 0,
       oid = ''a5a1f00000000000000000b2'' \<rparr>"

definition store2 :: store where
  "store2 = \<lparr> urls = [useandDoc], shortCodeUnique = False \<rparr>"

definition emptyCodeDoc :: IUrl where
  "emptyCodeDoc =
     \<lparr> shortCode = [],
       longUrl = ''https://example.net/x'',
       customAlias = None,
       createdAt = 500,
       clicks = 0,
       oid = ''15a1f00000000000000000c3'' \<rparr>"

definition store3 :: store where
  "store3 = \<lparr> urls = [emptyCodeDoc], shortCodeUnique = True \<rparr>"

section \<open>Properties\<close>

subsection \<open>Lookups\<close>

lemma findOne_None_iff: "findOne st code = None \<longleftrightarrow> code \<notin> shortCodes st"
  by (auto simp: findOne_def shortCodes_def find_None_iff)

lemma findOne_SomeD:
  "findOne st code = Some d \<Longrightarrow> d \<in> set (urls st) \<and> shortCode d = code"
  by (auto simp: findOne_def find_Some_iff)

lemma getUrlByShortCode_None_iff:
  "fst (getUrlByShortCode st code) = None \<longleftrightarrow> code \<notin> shortCodes st"
  by (cases "findOne st code") (simp_all add: getUrlByShortCode_def flip: findOne_None_iff)

subsection \<open>Generated codes\<close>



lemma length_generateShortCode: "length (generateShortCode e None) = 6"
  by (simp add: generateShortCode_def nanoid_def)



lemma generateShortCode_nonempty: "generateShortCode e None \<noteq> []"
  using length_generateShortCode [of e] by auto

lemma orElse_generated_nonempty: "orElse cAlias (generateShortCode e None) \<noteq> []"
  using generateShortCode_nonempty [of e]
  by (auto simp: orElse_def split: option.splits)

lemma generateShortCode_env0: "generateShortCode env0 None = ''useand''"
  by code_simp

lemma generateShortCode_env2: "generateShortCode env2 None = ''useand''"
  by code_simp


subsection \<open>What createShortUrl does, case by case\<close>

text \<open>
  With no alias, or with the empty string as alias, the generated code is saved without a
  look at the store; the unique index, where there is one, is what rejects a code that is
  already present.
\<close>

lemma createShortUrl_generated:
  assumes "cAlias = None \<or> cAlias = Some []"
  shows "createShortUrl e st lUrl cAlias =
     (if shortCodeUnique st \<and> generateShortCode e None \<in> shortCodes st
      then (Inl DuplicateKey, st)
      else (Inr (toUrl (newDoc e (generateShortCode e None) lUrl None)),
            st\<lparr>urls := urls st @ [newDoc e (generateShortCode e None) lUrl None]\<rparr>))"
  using assms
  by (auto simp: createShortUrl_def orElse_def orNull_def save_def newDoc_def Let_def)

lemma createShortUrl_alias_taken:
  assumes "a \<noteq> []" and "a \<in> shortCodes st"
  shows "createShortUrl e st lUrl (Some a) = (Inl (Error aliasInUse), st)"
proof -
  from assms(2) have "findOne st a \<noteq> None"
    by (simp add: findOne_None_iff)
  then have "isShortCodeAvailable st a = (False, st)"
    by (simp add: isShortCodeAvailable_def)
  with assms(1) show ?thesis
    by (simp add: createShortUrl_def)
qed

lemma createShortUrl_alias_free:
  assumes "a \<noteq> []" and "a \<notin> shortCodes st"
  shows "createShortUrl e st lUrl (Some a) =
      (Inr (toUrl (newDoc e a lUrl (Some a))), st\<lparr>urls := urls st @ [newDoc e a lUrl (Some a)]\<rparr>)"
proof -
  from assms(2) have "isShortCodeAvailable st a = (True, st)"
    by (simp add: isShortCodeAvailable_def findOne_None_iff)
  with assms show ?thesis
    by (simp add: createShortUrl_def orElse_def orNull_def save_def newDoc_def Let_def)
qed

lemma createShortUrl_cases:
  obtains (conflict) a where "cAlias = Some a" "a \<noteq> []" "a \<in> shortCodes st"
      "createShortUrl e st lUrl cAlias = (Inl (Error aliasInUse), st)"
  | (duplicate) "orNull cAlias = None" "shortCodeUnique st" "generateShortCode e None \<in> shortCodes st"
      "createShortUrl e st lUrl cAlias = (Inl DuplicateKey, st)"
  | (created) "\<not> (shortCodeUnique st \<and> orElse cAlias (generateShortCode e None) \<in> shortCodes st)"
      "createShortUrl e st lUrl cAlias =
         (Inr (toUrl (newDoc e (orElse cAlias (generateShortCode e None)) lUrl (orNull cAlias))),
          st\<lparr>urls := urls st @ [newDoc e (orElse cAlias (generateShortCode e None)) lUrl (orNull cAlias)]\<rparr>)"
proof (cases "cAlias = None \<or> cAlias = Some []")
  case True
  then have n: "orNull cAlias = None" "orElse cAlias (generateShortCode e None) = generateShortCode e None"
    by (auto simp: orNull_def orElse_def)
  show ?thesis
  proof (cases "shortCodeUnique st \<and> generateShortCode e None \<in> shortCodes st")
    case True
    with createShortUrl_generated [OF \<open>cAlias = None \<or> cAlias = Some []\<close>, of e st lUrl] n
    show ?thesis by (intro duplicate) simp_all
  next
    case False
    with createShortUrl_generated [OF \<open>cAlias = None \<or> cAlias = Some []\<close>, of e st lUrl] n
    show ?thesis by (intro created) simp_all
  qed
next
  case False
  then obtain a where a: "cAlias = Some a" "a \<noteq> []"
    by (cases cAlias) auto
  then have n: "orNull cAlias = Some a" "orElse cAlias (generateShortCode e None) = a"
    by (auto simp: orNull_def orElse_def)
  show ?thesis
  proof (cases "a \<in> shortCodes st")
    case True
    with a createShortUrl_alias_taken [of a st e lUrl] show ?thesis
      by (intro conflict) simp_all
  next
    case False
    with a n createShortUrl_alias_free [of a st e lUrl] show ?thesis
      by (intro created) simp_all
  qed
qed

subsection \<open>Counting clicks\<close>

lemma map_shortCode_incFirst: "map shortCode (incFirst code ds) = map shortCode ds"
  by (induction ds) auto

lemma find_incFirst:
  "find (\<lambda>d. shortCode d = code) (incFirst code ds)
     = map_option (\<lambda>d. d\<lparr>clicks := clicks d + 1\<rparr>) (find (\<lambda>d. shortCode d = code) ds)"
  by (induction ds) auto

lemma incFirst_absent: "code \<notin> shortCode ` set ds \<Longrightarrow> incFirst code ds = ds"
  by (induction ds) auto

lemma incFirst_split:
  "code \<in> shortCode ` set ds \<Longrightarrow>
     \<exists>pre d post. ds = pre @ d # post \<and> shortCode d = code \<and> code \<notin> shortCode ` set pre \<and>
        incFirst code ds = pre @ d\<lparr>clicks := clicks d + 1\<rparr> # post"
proof (induction ds)
  case Nil
  then show ?case by simp
next
  case (Cons x xs)
  show ?case
  proof (cases "shortCode x = code")
    case True
    then have "x # xs = [] @ x # xs \<and> shortCode x = code \<and> code \<notin> shortCode ` set [] \<and>
        incFirst code (x # xs) = [] @ x\<lparr>clicks := clicks x + 1\<rparr> # xs"
      by simp
    then show ?thesis by blast
  next
    case False
    with Cons.prems have "code \<in> shortCode ` set xs" by auto
    from Cons.IH [OF this] obtain pre d post where
      h: "xs = pre @ d # post" "shortCode d = code" "code \<notin> shortCode ` set pre"
         "incFirst code xs = pre @ d\<lparr>clicks := clicks d + 1\<rparr> # post"
      by blast
    with False have "x # xs = (x # pre) @ d # post \<and> shortCode d = code \<and>
        code \<notin> shortCode ` set (x # pre) \<and>
        incFirst code (x # xs) = (x # pre) @ d\<lparr>clicks := clicks d + 1\<rparr> # post"
      by auto
    then show ?thesis by blast
  qed
qed

lemma getUrlByShortCode_increment:
  "fst (getUrlByShortCode (snd (incrementUrlClicks st code)) code)
     = map_option (\<lambda>u. u\<lparr>clicks := clicks u + 1\<rparr>) (fst (getUrlByShortCode st code))"
  by (cases "find (\<lambda>d. shortCode d = code) (urls st)")
     (simp_all add: getUrlByShortCode_def incrementUrlClicks_def findOneAndUpdate_inc_def
        findOne_def find_incFirst toUrl_def)

lemma getUrlByShortCode_incrementTimes:
  "fst (getUrlByShortCode st code) = Some u \<Longrightarrow>
   fst (getUrlByShortCode (incrementTimes n st code) code) = Some (u\<lparr>clicks := clicks u + n\<rparr>)"
proof (induction n arbitrary: st u)
  case 0
  then show ?case by simp
next
  case (Suc n)
  from Suc.prems have
    "fst (getUrlByShortCode (snd (incrementUrlClicks st code)) code) = Some (u\<lparr>clicks := clicks u + 1\<rparr>)"
    by (simp add: getUrlByShortCode_increment)
  from Suc.IH [OF this] show ?case by simp
qed

lemma incrementUrlClicks_absent:
  "code \<notin> shortCodes st \<Longrightarrow> incrementUrlClicks st code = ((), st)"
  by (simp add: incrementUrlClicks_def findOneAndUpdate_inc_def shortCodes_def incFirst_absent)

subsection \<open>Uniqueness of short codes\<close>

lemma uniqueShortCodes_append:
  "uniqueShortCodes (st\<lparr>urls := urls st @ [d]\<rparr>) \<longleftrightarrow>
     uniqueShortCodes st \<and> shortCode d \<notin> shortCodes st"
  by (auto simp: uniqueShortCodes_def shortCodes_def)

lemma uniqueShortCodes_increment:
  "uniqueShortCodes (snd (incrementUrlClicks st code)) = uniqueShortCodes st"
  by (simp add: uniqueShortCodes_def incrementUrlClicks_def findOneAndUpdate_inc_def
      map_shortCode_incFirst)

lemma createShortUrl_keeps_unique:
  assumes "shortCodeUnique st" and "uniqueShortCodes st"
  shows "uniqueShortCodes (snd (createShortUrl e st lUrl cAlias)) \<and>
         shortCodeUnique (snd (createShortUrl e st lUrl cAlias))"
proof (cases rule: createShortUrl_cases [of cAlias st e lUrl])
  case (conflict a)
  with assms show ?thesis by simp
next
  case duplicate
  with assms show ?thesis by simp
next
  case created
  with assms show ?thesis by (simp add: uniqueShortCodes_append newDoc_def)
qed



subsection \<open>Stores the methods can produce\<close>

lemma shortCodes_increment: "shortCodes (snd (incrementUrlClicks st code)) = shortCodes st"
proof -
  have "set (map shortCode (incFirst code (urls st))) = set (map shortCode (urls st))"
    by (simp only: map_shortCode_incFirst)
  then show ?thesis
    by (simp add: shortCodes_def incrementUrlClicks_def findOneAndUpdate_inc_def)
qed

lemma shortCodes_createShortUrl:
  "shortCodes (snd (createShortUrl e st lUrl cAlias))
     \<subseteq> insert (orElse cAlias (generateShortCode e None)) (shortCodes st)"
proof (cases rule: createShortUrl_cases [of cAlias st e lUrl])
  case (conflict a)
  then show ?thesis by auto
next
  case duplicate
  then show ?thesis by auto
next
  case created
  then show ?thesis by (auto simp: shortCodes_def newDoc_def)
qed

lemma reachable_no_empty_code: "reachable st \<Longrightarrow> [] \<notin> shortCodes st"
proof (induction rule: reachable.induct)
  case (empty b)
  show ?case by (simp add: shortCodes_def)
next
  case (create st e lUrl cAlias)
  with shortCodes_createShortUrl [of e st lUrl cAlias] orElse_generated_nonempty [of cAlias e]
  show ?case by auto
next
  case (increment st code)
  then show ?case by (simp add: shortCodes_increment)
qed

lemma shortCodeUnique_createShortUrl:
  "shortCodeUnique (snd (createShortUrl e st lUrl cAlias)) = shortCodeUnique st"
  by (cases rule: createShortUrl_cases [of cAlias st e lUrl]) simp_all

lemma shortCodeUnique_increment:
  "shortCodeUnique (snd (incrementUrlClicks st code)) = shortCodeUnique st"
  by (simp add: incrementUrlClicks_def findOneAndUpdate_inc_def)

lemma reachable_unique:
  "reachable st \<Longrightarrow> shortCodeUnique st \<Longrightarrow> uniqueShortCodes st"
proof (induction rule: reachable.induct)
  case (empty b)
  show ?case by (simp add: uniqueShortCodes_def)
next
  case (create st e lUrl cAlias)
  from create.prems have idx: "shortCodeUnique st"
    by (simp add: shortCodeUnique_createShortUrl)
  with create.IH have "uniqueShortCodes st" by simp
  with idx createShortUrl_keeps_unique [of st e lUrl cAlias] show ?case by simp
next
  case (increment st code)
  then show ?case
    by (simp add: shortCodeUnique_increment uniqueShortCodes_increment)
qed

lemma reachable_store1: "reachable store1"
proof -
  have "reachable \<lparr> urls = [], shortCodeUnique = True \<rparr>"
    by (rule reachable.empty)
  then have "reachable (snd (createShortUrl env1 \<lparr> urls = [], shortCodeUnique = True \<rparr>
      ''https://example.com'' (Some ''promo'')))"
    by (rule reachable.create)
  moreover have "snd (createShortUrl env1 \<lparr> urls = [], shortCodeUnique = True \<rparr>
      ''https://example.com'' (Some ''promo'')) = store1"
    using createShortUrl_alias_free [of "''promo''" "\<lparr> urls = [], shortCodeUnique = True \<rparr>" env1
        "''https://example.com''"]
    by (simp add: shortCodes_def newDoc_def env1_def store1_def promoDoc_def)
  ultimately show ?thesis by simp
qed

subsection \<open>Recent records\<close>

lemma getRecentUrls_default: "getRecentUrls st None = getRecentUrls st (Some 10)"
  by (simp add: getRecentUrls_def)

lemma sorted_desc_sort_key:
  "sorted_wrt (\<lambda>a b. createdAt b \<le> createdAt a) (sort_key (\<lambda>d. - createdAt d) (ds :: IUrl list))"
proof -
  have "sorted (map (\<lambda>d. - createdAt d) (sort_key (\<lambda>d. - createdAt d) ds))"
    by (rule sorted_sort_key)
  then show ?thesis
    by (simp add: sorted_map)
qed

lemma sorted_desc_limit_docs:
  "sorted_wrt R ds \<Longrightarrow> sorted_wrt R (limit_docs n ds)"
  by (simp add: limit_docs_def sorted_wrt_take)

lemma getRecentUrls_sorted:
  "sorted_wrt (\<lambda>a b. createdAt b \<le> createdAt a) (fst (getRecentUrls st lim))"
proof -
  have "sorted_wrt (\<lambda>a b. createdAt b \<le> createdAt a)
          (find_sort_limit st (case lim of None \<Rightarrow> 10 | Some k \<Rightarrow> k))"
    unfolding find_sort_limit_def
    by (rule sorted_desc_limit_docs [OF sorted_desc_sort_key])
  then show ?thesis
    by (simp add: getRecentUrls_def sorted_wrt_map toUrl_def)
qed

lemma getRecentUrls_positive:
  "0 < k \<Longrightarrow> length (fst (getRecentUrls st (Some k))) \<le> k"
  by (simp add: getRecentUrls_def find_sort_limit_def limit_docs_def)

lemma getRecentUrls_from_store:
  "set (fst (getRecentUrls st lim)) \<subseteq> toUrl ` set (urls st)"
  by (auto simp: getRecentUrls_def find_sort_limit_def limit_docs_def Let_def
      split: if_splits dest: in_set_takeD)

lemma getRecentUrls_zero_all:
  "length (fst (getRecentUrls st (Some 0))) = length (urls st)"
  by (simp add: getRecentUrls_def find_sort_limit_def limit_docs_def)

section \<open>The claims\<close>

text \<open>
  C1. In every store the methods can produce, a call of \<open>createShortUrl\<close> with an alias
  that is already present as a short code is rejected with the error "Custom alias is
  already in use", and the store it leaves is the store it found: no document is inserted
  and none is changed. (For a non-empty alias this holds in any store whatsoever, lemma
  \<open>createShortUrl_alias_taken\<close>; the empty string, which lines 69 and 72 take for "no
  alias", is the short code of no document the methods create.)
\<close>

theorem createShortUrl_alias_conflict:
  assumes "reachable st" and "a \<in> shortCodes st"
  shows "fst (createShortUrl e st lUrl (Some a)) = Inl (Error aliasInUse) \<and>
         snd (createShortUrl e st lUrl (Some a)) = st"
proof -
  from assms reachable_no_empty_code [of st] have "a \<noteq> []"
    by auto
  with assms(2) createShortUrl_alias_taken [of a st e lUrl] show ?thesis
    by simp
qed

theorem createShortUrl_alias_conflict_witness:
  "reachable store1 \<and> ''promo'' \<in> shortCodes store1 \<and>
   fst (createShortUrl env0 store1 ''https://example.org'' (Some ''promo''))
     = Inl (Error aliasInUse) \<and>
   snd (createShortUrl env0 store1 ''https://example.org'' (Some ''promo'')) = store1"
proof -
  have present: "''promo'' \<in> shortCodes store1"
    by (simp add: store1_def shortCodes_def promoDoc_def)
  from createShortUrl_alias_conflict [OF reachable_store1 present, of env0 "''https://example.org''"]
    reachable_store1 present
  show ?thesis by simp
qed

text \<open>
  With a unique index on \<open>shortCode\<close> the store itself keeps the short codes apart. A store
  with the index that the methods can produce has pairwise distinct short codes; every
  URL method keeps them distinct and keeps the index; a record that \<open>createShortUrl\<close>
  returns has a short code that no document had before the call; and a call without alias
  returns a record whenever the generated code is not yet in the store.
\<close>

lemma shortCodes_unique_with_index:
  assumes "shortCodeUnique st"
  shows "(reachable st \<longrightarrow> uniqueShortCodes st) \<and>
         (uniqueShortCodes st \<longrightarrow>
            uniqueShortCodes (snd (createShortUrl e st lUrl cAlias)) \<and>
            uniqueShortCodes (snd (incrementUrlClicks st code))) \<and>
         shortCodeUnique (snd (createShortUrl e st lUrl cAlias)) \<and>
         shortCodeUnique (snd (incrementUrlClicks st code)) \<and>
         snd (getUrlByShortCode st code) = st \<and>
         snd (getRecentUrls st lim) = st \<and>
         snd (isShortCodeAvailable st code) = st \<and>
         (\<forall>u st'. createShortUrl e st lUrl cAlias = (Inr u, st') \<longrightarrow>
            shortCode u \<notin> shortCodes st) \<and>
         (\<forall>u st'. createShortUrl e st lUrl None = (Inr u, st') \<longrightarrow>
            length (shortCode u) = 6) \<and>
         (lUrl \<noteq> [] \<and> generateShortCode e None \<notin> shortCodes st \<longrightarrow>
            (\<exists>u st'. createShortUrl e st lUrl None = (Inr u, st')))"
proof -
  have always: "reachable st \<longrightarrow> uniqueShortCodes st"
    using assms by (simp add: reachable_unique)
  have kept: "uniqueShortCodes st \<longrightarrow>
      uniqueShortCodes (snd (createShortUrl e st lUrl cAlias)) \<and>
      uniqueShortCodes (snd (incrementUrlClicks st code))"
    using assms createShortUrl_keeps_unique [of st e lUrl cAlias]
    by (simp add: uniqueShortCodes_increment)
  have index: "shortCodeUnique (snd (createShortUrl e st lUrl cAlias))"
      "shortCodeUnique (snd (incrementUrlClicks st code))"
    using assms by (simp_all add: shortCodeUnique_createShortUrl shortCodeUnique_increment)
  have reads: "snd (getUrlByShortCode st code) = st" "snd (getRecentUrls st lim) = st"
      "snd (isShortCodeAvailable st code) = st"
    by (simp_all add: getUrlByShortCode_def getRecentUrls_def isShortCodeAvailable_def
        split: option.splits)
  have fresh: "\<forall>u st'. createShortUrl e st lUrl cAlias = (Inr u, st') \<longrightarrow>
      shortCode u \<notin> shortCodes st"
  proof (intro allI impI)
    fix u st'
    assume ok: "createShortUrl e st lUrl cAlias = (Inr u, st')"
    show "shortCode u \<notin> shortCodes st"
    proof (cases rule: createShortUrl_cases [of cAlias st e lUrl])
      case (conflict a)
      with ok show ?thesis by simp
    next
      case duplicate
      with ok show ?thesis by simp
    next
      case created
      with ok assms show ?thesis
        by (auto simp: toUrl_def newDoc_def)
    qed
  qed
  have gen: "createShortUrl e st lUrl None =
     (if generateShortCode e None \<in> shortCodes st then (Inl DuplicateKey, st)
      else (Inr (toUrl (newDoc e (generateShortCode e None) lUrl None)),
            st\<lparr>urls := urls st @ [newDoc e (generateShortCode e None) lUrl None]\<rparr>))"
    using assms createShortUrl_generated [of None e st lUrl] by simp
  have six: "\<forall>u st'. createShortUrl e st lUrl None = (Inr u, st') \<longrightarrow>
      length (shortCode u) = 6"
    by (auto simp: gen toUrl_def newDoc_def length_generateShortCode split: if_splits)
  have returns: "lUrl \<noteq> [] \<and> generateShortCode e None \<notin> shortCodes st \<longrightarrow>
      (\<exists>u st'. createShortUrl e st lUrl None = (Inr u, st'))"
    by (simp add: gen)
  from always kept index reads fresh six returns show ?thesis
    by blast
qed

text \<open>
  C2. \<open>createShortUrl\<close> looks an alias up before it saves (lines 72 to 77), but saves a
  generated code as it comes. Take the collection without a unique index on \<open>shortCode\<close>,
  empty at first. A call without alias creates a record with the code \<open>useand\<close>, and
  the short codes are distinct. A second call without alias that draws the same six
  characters succeeds as well: the record it returns has a short code that was in the
  store before the call, and the store it leaves holds two documents with one short code.
  On the same store with the index, the second call is rejected by the store with its
  duplicate-key error and returns no record.
\<close>

theorem createShortUrl_generated_collision:
  "createShortUrl env2 \<lparr> urls = [], shortCodeUnique = False \<rparr> ''https://example.net'' None
     = (Inr (toUrl useandDoc), store2) \<and>
   uniqueShortCodes store2 \<and>
   createShortUrl env0 store2 ''https://example.org'' None
     = (Inr (toUrl (newDoc env0 ''useand'' ''https://example.org'' None)),
        store2\<lparr>urls := [useandDoc, newDoc env0 ''useand'' ''https://example.org'' None]\<rparr>) \<and>
   shortCode (toUrl (newDoc env0 ''useand'' ''https://example.org'' None)) \<in> shortCodes store2 \<and>
   \<not> uniqueShortCodes (snd (createShortUrl env0 store2 ''https://example.org'' None)) \<and>
   createShortUrl env0 (store2\<lparr>shortCodeUnique := True\<rparr>) ''https://example.org'' None
     = (Inl DuplicateKey, store2\<lparr>shortCodeUnique := True\<rparr>)"
proof -
  have first: "createShortUrl env2 \<lparr> urls = [], shortCodeUnique = False \<rparr>
      ''https://example.net'' None = (Inr (toUrl useandDoc), store2)"
  proof -
    have "newDoc env2 ''useand'' ''https://example.net'' None = useandDoc"
      by (simp add: newDoc_def env2_def useandDoc_def)
    with createShortUrl_generated
      [of None env2 "\<lparr> urls = [], shortCodeUnique = False \<rparr>" "''https://example.net''"]
    show ?thesis
      by (simp add: generateShortCode_env2 shortCodes_def store2_def)
  qed
  have distinct: "uniqueShortCodes store2"
    by (simp add: uniqueShortCodes_def store2_def)
  have second: "createShortUrl env0 store2 ''https://example.org'' None
     = (Inr (toUrl (newDoc env0 ''useand'' ''https://example.org'' None)),
        store2\<lparr>urls := [useandDoc, newDoc env0 ''useand'' ''https://example.org'' None]\<rparr>)"
    using createShortUrl_generated [of None env0 store2 "''https://example.org''"]
    by (simp add: generateShortCode_env0 store2_def)
  have present: "shortCode (toUrl (newDoc env0 ''useand'' ''https://example.org'' None))
      \<in> shortCodes store2"
    by (simp add: toUrl_def newDoc_def shortCodes_def store2_def useandDoc_def)
  have twice: "\<not> uniqueShortCodes (snd (createShortUrl env0 store2 ''https://example.org'' None))"
    by (simp add: second uniqueShortCodes_def newDoc_def useandDoc_def)
  have indexed: "createShortUrl env0 (store2\<lparr>shortCodeUnique := True\<rparr>) ''https://example.org'' None
     = (Inl DuplicateKey, store2\<lparr>shortCodeUnique := True\<rparr>)"
    using createShortUrl_generated
      [of None env0 "store2\<lparr>shortCodeUnique := True\<rparr>" "''https://example.org''"]
    by (simp add: generateShortCode_env0 shortCodes_def store2_def useandDoc_def)
  from first distinct second present twice indexed show ?thesis
    by simp
qed

text \<open>
  C3. \<open>getRecentUrls\<close> hands its argument to \<open>limit\<close> as it is, and the store reads a
  limit of \<open>0\<close> as "no limit": on a store that holds one record, \<open>getRecentUrls(0)\<close> returns
  that record, which is more than zero records and not the empty sequence. (For a limit
  \<open>k > 0\<close> the result has at most \<open>k\<close> records, for every limit it is ordered by
  \<open>createdAt\<close> descending, and a call without argument is the call with limit 10: lemmas
  \<open>getRecentUrls_positive\<close>, \<open>getRecentUrls_sorted\<close> and \<open>getRecentUrls_default\<close>.)
\<close>

theorem getRecentUrls_limit_zero:
  "fst (getRecentUrls store1 (Some 0)) = [toUrl promoDoc] \<and>
   \<not> length (fst (getRecentUrls store1 (Some 0))) \<le> 0"
  by (simp add: getRecentUrls_def find_sort_limit_def limit_docs_def store1_def)

text \<open>
  C4. When a record matches the short code, \<open>n\<close> calls of \<open>incrementUrlClicks\<close>, one after
  the other, leave the record that \<open>getUrlByShortCode\<close> returns for that code with its
  \<open>clicks\<close> raised by exactly \<open>n\<close> and nothing else changed. When no record matches, the
  call returns normally and the store is the same as before.
\<close>

theorem incrementUrlClicks_counts:
  "(fst (getUrlByShortCode st code) = Some u \<longrightarrow>
      fst (getUrlByShortCode (incrementTimes n st code) code)
        = Some (u\<lparr>clicks := clicks u + n\<rparr>)) \<and>
   (code \<notin> shortCodes st \<longrightarrow> incrementUrlClicks st code = ((), st))"
  using getUrlByShortCode_incrementTimes [of st code u n] incrementUrlClicks_absent [of code st]
  by blast

theorem incrementUrlClicks_counts_witness:
  "fst (getUrlByShortCode store1 ''promo'') = Some (toUrl promoDoc) \<and>
   fst (getUrlByShortCode (incrementTimes 3 store1 ''promo'') ''promo'')
     = Some ((toUrl promoDoc)\<lparr>clicks := 3\<rparr>) \<and>
   ''nope'' \<notin> shortCodes store1 \<and>
   incrementUrlClicks store1 ''nope'' = ((), store1)"
proof -
  have found: "fst (getUrlByShortCode store1 ''promo'') = Some (toUrl promoDoc)"
    by (simp add: getUrlByShortCode_def findOne_def store1_def promoDoc_def)
  have absent: "''nope'' \<notin> shortCodes store1"
    by (simp add: shortCodes_def store1_def promoDoc_def)
  have zero: "clicks (toUrl promoDoc) = 0"
    by (simp add: toUrl_def promoDoc_def)
  from incrementUrlClicks_counts [of store1 "''promo''" "toUrl promoDoc" 3]
    incrementUrlClicks_counts [of store1 "''nope''"] found absent zero
  show ?thesis by simp
qed





text \<open>
  C7. \<open>getUrlByShortCode\<close> returns \<open>undefined\<close> (and raises nothing) when no document has
  exactly the given short code, and otherwise returns the record of a document of the
  store whose short code is exactly the given one.
\<close>

theorem getUrlByShortCode_exact_match:
  "(code \<notin> shortCodes st \<longrightarrow> fst (getUrlByShortCode st code) = None) \<and>
   (code \<in> shortCodes st \<longrightarrow>
      (\<exists>d \<in> set (urls st). shortCode d = code \<and>
         fst (getUrlByShortCode st code) = Some (toUrl d) \<and>
         shortCode (toUrl d) = code))"
proof (cases "findOne st code")
  case None
  then show ?thesis
    by (simp add: getUrlByShortCode_def flip: findOne_None_iff)
next
  case (Some d)
  then have "code \<in> shortCodes st"
    using findOne_None_iff [of st code] by simp
  with Some findOne_SomeD [OF Some] show ?thesis
    by (auto simp: getUrlByShortCode_def toUrl_def)
qed

theorem getUrlByShortCode_exact_match_witness:
  "''Promo'' \<notin> shortCodes store1 \<and> fst (getUrlByShortCode store1 ''Promo'') = None \<and>
   ''promo'' \<in> shortCodes store1 \<and> fst (getUrlByShortCode store1 ''promo'') = Some (toUrl promoDoc)"
  using getUrlByShortCode_exact_match [of "''Promo''" store1]
    getUrlByShortCode_exact_match [of "''promo''" store1]
  by (simp add: shortCodes_def store1_def promoDoc_def)

text \<open>
  C8. \<open>getUrlByShortCode\<close> leaves the store as it found it, and a second call with the same
  short code, with no write in between, returns what the first call returned.
\<close>

theorem getUrlByShortCode_pure_read:
  "snd (getUrlByShortCode st code) = st \<and>
   getUrlByShortCode (snd (getUrlByShortCode st code)) code = getUrlByShortCode st code"
  by (simp add: getUrlByShortCode_def split: option.splits)

theorem getUrlByShortCode_pure_read_witness:
  "getUrlByShortCode store1 ''promo'' = (Some (toUrl promoDoc), store1) \<and>
   getUrlByShortCode (snd (getUrlByShortCode store1 ''promo'')) ''promo''
     = (Some (toUrl promoDoc), store1)"
proof -
  have "getUrlByShortCode store1 ''promo'' = (Some (toUrl promoDoc), store1)"
    by (simp add: getUrlByShortCode_def findOne_def store1_def promoDoc_def)
  with getUrlByShortCode_pure_read [of store1 "''promo''"] show ?thesis
    by simp
qed

text \<open>
  C9. With the empty string as alias, \<open>createShortUrl\<close> does what it does without alias: it
  never answers with the alias conflict, also when a document with the empty short code
  exists; a record it returns has the generated six-character code as \<open>shortCode\<close> and
  \<open>null\<close> as \<open>customAlias\<close>, in the returned record and in the appended document. And
  whatever the alias argument, the short code of a created record is not the empty
  string, so that no store the methods can produce holds the empty string as a short
  code.
\<close>

theorem createShortUrl_empty_alias:
  "createShortUrl e st lUrl (Some []) = createShortUrl e st lUrl None \<and>
   fst (createShortUrl e st lUrl (Some [])) \<noteq> Inl (Error aliasInUse) \<and>
   (\<forall>u st'. createShortUrl e st lUrl (Some []) = (Inr u, st') \<longrightarrow>
      shortCode u = generateShortCode e None \<and> length (shortCode u) = 6 \<and>
      customAlias u = None \<and>
      (\<exists>d. urls st' = urls st @ [d] \<and> shortCode d = shortCode u \<and> customAlias d = None)) \<and>
   (\<forall>a u st'. createShortUrl e st lUrl a = (Inr u, st') \<longrightarrow>
      shortCode u \<noteq> [] \<and> (\<exists>d. urls st' = urls st @ [d] \<and> shortCode d \<noteq> [])) \<and>
   (reachable st \<longrightarrow> [] \<notin> shortCodes st)"
proof -
  let ?g = "generateShortCode e None"
  have eq: "createShortUrl e st lUrl (Some []) =
     (if shortCodeUnique st \<and> ?g \<in> shortCodes st then (Inl DuplicateKey, st)
      else (Inr (toUrl (newDoc e ?g lUrl None)), st\<lparr>urls := urls st @ [newDoc e ?g lUrl None]\<rparr>))"
    by (rule createShortUrl_generated) simp
  have same: "createShortUrl e st lUrl (Some []) = createShortUrl e st lUrl None"
    using createShortUrl_generated [of None e st lUrl] by (simp add: eq)
  have noconflict: "fst (createShortUrl e st lUrl (Some [])) \<noteq> Inl (Error aliasInUse)"
    by (simp add: eq)
  have gen: "\<forall>u st'. createShortUrl e st lUrl (Some []) = (Inr u, st') \<longrightarrow>
      shortCode u = ?g \<and> length (shortCode u) = 6 \<and> customAlias u = None \<and>
      (\<exists>d. urls st' = urls st @ [d] \<and> shortCode d = shortCode u \<and> customAlias d = None)"
    by (auto simp: eq toUrl_def newDoc_def length_generateShortCode split: if_splits)
  have nonempty: "\<forall>a u st'. createShortUrl e st lUrl a = (Inr u, st') \<longrightarrow>
      shortCode u \<noteq> [] \<and> (\<exists>d. urls st' = urls st @ [d] \<and> shortCode d \<noteq> [])"
  proof (intro allI impI)
    fix a u st'
    assume ok: "createShortUrl e st lUrl a = (Inr u, st')"
    show "shortCode u \<noteq> [] \<and> (\<exists>d. urls st' = urls st @ [d] \<and> shortCode d \<noteq> [])"
    proof (cases rule: createShortUrl_cases [of a st e lUrl])
      case (conflict b)
      with ok show ?thesis by simp
    next
      case duplicate
      with ok show ?thesis by simp
    next
      case created
      with ok orElse_generated_nonempty [of a e] show ?thesis
        by (auto simp: toUrl_def newDoc_def)
    qed
  qed
  have never: "reachable st \<longrightarrow> [] \<notin> shortCodes st"
    by (simp add: reachable_no_empty_code)
  from same noconflict gen nonempty never show ?thesis by blast
qed

theorem createShortUrl_empty_alias_witness:
  "[] \<in> shortCodes store3 \<and>
   createShortUrl env0 store3 ''https://example.org'' (Some [])
     = (Inr (toUrl (newDoc env0 ''useand'' ''https://example.org'' None)),
        store3\<lparr>urls := [emptyCodeDoc, newDoc env0 ''useand'' ''https://example.org'' None]\<rparr>) \<and>
   createShortUrl env0 store3 ''https://example.org'' None
     = (Inr (toUrl (newDoc env0 ''useand'' ''https://example.org'' None)),
        store3\<lparr>urls := [emptyCodeDoc, newDoc env0 ''useand'' ''https://example.org'' None]\<rparr>) \<and>
   customAlias (toUrl (newDoc env0 ''useand'' ''https://example.org'' None)) = None"
proof -
  have "createShortUrl env0 store3 ''https://example.org'' None
     = (Inr (toUrl (newDoc env0 ''useand'' ''https://example.org'' None)),
        store3\<lparr>urls := [emptyCodeDoc, newDoc env0 ''useand'' ''https://example.org'' None]\<rparr>)"
    using createShortUrl_generated [of None env0 store3 "''https://example.org''"]
    by (simp add: generateShortCode_env0 store3_def shortCodes_def emptyCodeDoc_def)
  with createShortUrl_empty_alias [of env0 store3 "''https://example.org''"]
  show ?thesis
    by (simp add: store3_def shortCodes_def emptyCodeDoc_def toUrl_def newDoc_def)
qed

text \<open>
  C10. \<open>incrementUrlClicks\<close> either leaves the store as it is, or changes exactly one
  document, one whose short code is the given one: the documents before and after it, and
  the rest of the store, stay as they were, and of the changed document only \<open>clicks\<close>
  differs, by one.
\<close>

theorem incrementUrlClicks_frame:
  "snd (incrementUrlClicks st code) = st \<or>
   (\<exists>pre d post d'.
      urls st = pre @ d # post \<and>
      snd (incrementUrlClicks st code) = st\<lparr>urls := pre @ d' # post\<rparr> \<and>
      shortCode d = code \<and>
      shortCode d' = shortCode d \<and> longUrl d' = longUrl d \<and> customAlias d' = customAlias d \<and>
      createdAt d' = createdAt d \<and> oid d' = oid d \<and> clicks d' = clicks d + 1)"
proof (cases "code \<in> shortCodes st")
  case False
  then show ?thesis
    by (simp add: incrementUrlClicks_absent)
next
  case True
  then have "code \<in> shortCode ` set (urls st)"
    by (simp add: shortCodes_def)
  from incFirst_split [OF this] obtain pre d post where
    h: "urls st = pre @ d # post" "shortCode d = code"
       "incFirst code (urls st) = pre @ d\<lparr>clicks := clicks d + 1\<rparr> # post"
    by blast
  let ?d' = "d\<lparr>clicks := clicks d + 1\<rparr>"
  have "urls st = pre @ d # post \<and>
      snd (incrementUrlClicks st code) = st\<lparr>urls := pre @ ?d' # post\<rparr> \<and>
      shortCode d = code \<and>
      shortCode ?d' = shortCode d \<and> longUrl ?d' = longUrl d \<and> customAlias ?d' = customAlias d \<and>
      createdAt ?d' = createdAt d \<and> oid ?d' = oid d \<and> clicks ?d' = clicks d + 1"
    using h by (simp add: incrementUrlClicks_def findOneAndUpdate_inc_def)
  then show ?thesis by blast
qed

theorem incrementUrlClicks_frame_witness:
  "snd (incrementUrlClicks store1 ''promo'') = store1\<lparr>urls := [promoDoc\<lparr>clicks := 1\<rparr>]\<rparr> \<and>
   snd (incrementUrlClicks store1 ''nope'') = store1"
  using incrementUrlClicks_frame [of store1 "''promo''"] incrementUrlClicks_frame [of store1 "''nope''"]
  by (simp add: incrementUrlClicks_def findOneAndUpdate_inc_def store1_def promoDoc_def)

end
